theory Spec2Isabelle
  imports Main "HOL-Library.Word" "HOL-Library.Monad_Syntax"
begin

section \<open>Data model\<close>

text \<open>
  The ICO assembler of \<^verbatim>\<open>src/pages/developers/FaviconGeneratorPage.jsx\<close> takes an array
  of objects \<^verbatim>\<open>{ width, height, data: Uint8Array }\<close>. Dimensions are the sizes of a
  canvas in pixels, non-negative integers; the payload is a sequence of bytes. The routine
  reads these three properties only; whatever else an object carries is the extension of
  the record, and the functions below take any extension.
\<close>

type_synonym byte = "8 word"

type_synonym buffer = "byte list"

record image =
  width :: nat
  height :: nat
  data :: "byte list"

section \<open>ArrayBuffer and DataView\<close>

text \<open>
  The only exception the operations below can throw is \<^verbatim>\<open>RangeError\<close>; a result of
  \<open>None\<close> stands for it.

  \<^verbatim>\<open>new ArrayBuffer(n)\<close> converts its argument with ToIndex, which throws for a length
  above \<open>2^53 - 1\<close>, and then asks the host for a block of \<open>n\<close> bytes
  (CreateByteDataBlock), which throws whenever the host cannot provide it. What the host
  grants is not decided by the program: it is a parameter, the predicate \<open>host\<close> on
  sizes, about which nothing is assumed. A block that is granted is filled with zeros.
  The routine allocates once, so one answer of the host is all a run depends on.

  All numbers the routine computes are sums of lengths; below \<open>2^53\<close> the arithmetic of
  JavaScript numbers on them is exact, and a total at or above \<open>2^53\<close> is refused by the
  allocation, so natural numbers give the same results.
\<close>

type_synonym host = "nat \<Rightarrow> bool"

definition max_byte_length :: nat where
  "max_byte_length = 2 ^ 53 - 1"

definition new_ArrayBuffer :: "host \<Rightarrow> nat \<Rightarrow> buffer option" where
  "new_ArrayBuffer host n =
     (if n > max_byte_length \<or> \<not> host n then None else Some (replicate n 0))"

text \<open>
  The setters of a DataView over the whole buffer: a write that does not fit between
  \<open>pos\<close> and the end of the view throws; the value is reduced modulo \<open>2^8\<close>,
  \<open>2^16\<close> or \<open>2^32\<close> (\<open>of_nat\<close> into a byte keeps the low eight bits) and stored
  in the byte order asked for.
\<close>

definition setUint8 :: "buffer \<Rightarrow> nat \<Rightarrow> nat \<Rightarrow> buffer option" where
  "setUint8 view pos v =
     (if pos + 1 > length view then None else Some (view[pos := of_nat v]))"

definition setUint16 :: "buffer \<Rightarrow> nat \<Rightarrow> nat \<Rightarrow> bool \<Rightarrow> buffer option" where
  "setUint16 view pos v littleEndian =
     (if pos + 2 > length view then None
      else Some (if littleEndian
                 then view[pos := of_nat v, pos + 1 := of_nat (v div 2 ^ 8)]
                 else view[pos := of_nat (v div 2 ^ 8), pos + 1 := of_nat v]))"

definition setUint32 :: "buffer \<Rightarrow> nat \<Rightarrow> nat \<Rightarrow> bool \<Rightarrow> buffer option" where
  "setUint32 view pos v littleEndian =
     (if pos + 4 > length view then None
      else Some (if littleEndian
                 then view[pos := of_nat v, pos + 1 := of_nat (v div 2 ^ 8),
                           pos + 2 := of_nat (v div 2 ^ 16), pos + 3 := of_nat (v div 2 ^ 24)]
                 else view[pos := of_nat (v div 2 ^ 24), pos + 1 := of_nat (v div 2 ^ 16),
                           pos + 2 := of_nat (v div 2 ^ 8), pos + 3 := of_nat v]))"

text \<open>The getters a reader of the file uses, with the same bounds check.\<close>

definition getUint8 :: "buffer \<Rightarrow> nat \<Rightarrow> nat option" where
  "getUint8 view pos =
     (if pos + 1 > length view then None else Some (unat (view ! pos)))"

definition getUint16 :: "buffer \<Rightarrow> nat \<Rightarrow> bool \<Rightarrow> nat option" where
  "getUint16 view pos littleEndian =
     (if pos + 2 > length view then None
      else Some (if littleEndian
                 then unat (view ! pos) + 2 ^ 8 * unat (view ! (pos + 1))
                 else 2 ^ 8 * unat (view ! pos) + unat (view ! (pos + 1))))"

definition getUint32 :: "buffer \<Rightarrow> nat \<Rightarrow> bool \<Rightarrow> nat option" where
  "getUint32 view pos littleEndian =
     (if pos + 4 > length view then None
      else Some (if littleEndian
                 then unat (view ! pos) + 2 ^ 8 * unat (view ! (pos + 1))
                      + 2 ^ 16 * unat (view ! (pos + 2)) + 2 ^ 24 * unat (view ! (pos + 3))
                 else 2 ^ 24 * unat (view ! pos) + 2 ^ 16 * unat (view ! (pos + 1))
                      + 2 ^ 8 * unat (view ! (pos + 2)) + unat (view ! (pos + 3))))"

text \<open>
  \<^verbatim>\<open>buffer.slice(begin, end)\<close> for non-negative arguments: the bytes from \<open>begin\<close> up
  to, not including, \<open>end\<close>, both clamped to the buffer; empty when \<open>end \<le> begin\<close>.
\<close>

definition slice :: "buffer \<Rightarrow> nat \<Rightarrow> nat \<Rightarrow> buffer" where
  "slice buf begin end = take (end - begin) (drop begin buf)"

section \<open>assembleIco\<close>

text \<open>
  The routine's three \<^verbatim>\<open>forEach\<close> loops update the local variables
  \<open>totalSize\<close>, \<open>pos\<close> and \<open>offset\<close> and write through one DataView over the whole
  buffer; here each loop takes the current values and returns the new ones. The first
  loop, which sums the payload lengths into \<open>totalSize\<close>, is the \<open>foldl\<close> in
  \<open>assembleIco\<close> below.

  The second loop: one 16-byte directory record per image, threading the view, the write
  cursor \<open>pos\<close> and the running payload offset.
\<close>

fun write_directory ::
  "'a image_scheme list \<Rightarrow> buffer \<Rightarrow> nat \<Rightarrow> nat \<Rightarrow> (buffer \<times> nat \<times> nat) option" where
  "write_directory [] view pos offset = Some (view, pos, offset)"
| "write_directory (img # imgs) view pos offset = do {
     let w = (if width img \<ge> 256 then 0 else width img);
     let h = (if height img \<ge> 256 then 0 else height img);
     view \<leftarrow> setUint8 view pos w; let pos = pos + 1;
     view \<leftarrow> setUint8 view pos h; let pos = pos + 1;
     view \<leftarrow> setUint8 view pos 0; let pos = pos + 1;
     view \<leftarrow> setUint8 view pos 0; let pos = pos + 1;
     view \<leftarrow> setUint16 view pos 1 True; let pos = pos + 2;
     view \<leftarrow> setUint16 view pos 32 True; let pos = pos + 2;
     view \<leftarrow> setUint32 view pos (length (data img)) True; let pos = pos + 4;
     view \<leftarrow> setUint32 view pos offset True; let pos = pos + 4;
     let offset = offset + length (data img);
     write_directory imgs view pos offset
   }"

text \<open>
  The inner \<^verbatim>\<open>for (let i = 0; i < img.data.length; i++) view.setUint8(pos++, img.data[i])\<close>.
\<close>

function write_bytes :: "byte list \<Rightarrow> nat \<Rightarrow> buffer \<Rightarrow> nat \<Rightarrow> (buffer \<times> nat) option" where
  "write_bytes d i view pos =
     (if i < length d
      then do {
        view \<leftarrow> setUint8 view pos (unat (d ! i));
        write_bytes d (i + 1) view (pos + 1)
      }
      else Some (view, pos))"
  by pat_completeness auto
termination
  by (relation "measure (\<lambda>(d, i, view, pos). length d - i)") auto

declare write_bytes.simps [simp del]

text \<open>The third \<^verbatim>\<open>forEach\<close>: the payloads, one after another.\<close>

fun write_image_data :: "'a image_scheme list \<Rightarrow> buffer \<Rightarrow> nat \<Rightarrow> (buffer \<times> nat) option" where
  "write_image_data [] view pos = Some (view, pos)"
| "write_image_data (img # imgs) view pos = do {
     (view, pos) \<leftarrow> write_bytes (data img) 0 view pos;
     write_image_data imgs view pos
   }"

definition assembleIco :: "host \<Rightarrow> 'a image_scheme list \<Rightarrow> buffer option" where
  "assembleIco host images = do {
     let count = length images;
     let offset = 6 + count * 16;
     let totalSize = foldl (\<lambda>totalSize img. totalSize + length (data img)) offset images;
     view \<leftarrow> new_ArrayBuffer host totalSize;
     let pos = 0;
     view \<leftarrow> setUint16 view pos 0 True; let pos = pos + 2;
     view \<leftarrow> setUint16 view pos 1 True; let pos = pos + 2;
     view \<leftarrow> setUint16 view pos count True; let pos = pos + 2;
     (view, pos, offset) \<leftarrow> write_directory images view pos offset;
     (view, pos) \<leftarrow> write_image_data images view pos;
     Some view
   }"

section \<open>The documented layout\<close>

text \<open>
  The container as the specification's layout table describes it, written without a
  cursor: a 6-byte header, one 16-byte record per entry, the payloads. All integers are
  little-endian; a field keeps as many low bytes of its value as it is wide.
\<close>

definition le16 :: "nat \<Rightarrow> byte list" where
  "le16 v = [of_nat v, of_nat (v div 2 ^ 8)]"

definition le32 :: "nat \<Rightarrow> byte list" where
  "le32 v = [of_nat v, of_nat (v div 2 ^ 8), of_nat (v div 2 ^ 16), of_nat (v div 2 ^ 24)]"

definition payload_size :: "'a image_scheme list \<Rightarrow> nat" where
  "payload_size images = sum_list (map (\<lambda>img. length (data img)) images)"

definition payload_offset :: "'a image_scheme list \<Rightarrow> nat \<Rightarrow> nat" where
  "payload_offset images i = 6 + 16 * length images + payload_size (take i images)"

definition layout_header :: "nat \<Rightarrow> byte list" where
  "layout_header n = le16 0 @ le16 1 @ le16 n"

definition layout_record :: "'a image_scheme \<Rightarrow> nat \<Rightarrow> byte list" where
  "layout_record img off =
     [of_nat (if width img < 256 then width img else 0),
      of_nat (if height img < 256 then height img else 0), 0, 0]
     @ le16 1 @ le16 32 @ le32 (length (data img)) @ le32 off"

definition layout_directory :: "'a image_scheme list \<Rightarrow> byte list" where
  "layout_directory images =
     concat (map (\<lambda>i. layout_record (images ! i) (payload_offset images i))
                 [0..<length images])"

definition layout_container :: "'a image_scheme list \<Rightarrow> byte list" where
  "layout_container images =
     layout_header (length images) @ layout_directory images @ concat (map data images)"

text \<open>The directory written from a running offset, as the loop does it.\<close>

fun records_from :: "'a image_scheme list \<Rightarrow> nat \<Rightarrow> byte list" where
  "records_from [] off = []"
| "records_from (img # imgs) off =
     layout_record img off @ records_from imgs (off + length (data img))"

text \<open>Where a reader finds record \<open>i\<close> of the directory.\<close>

definition dir_entry :: "nat \<Rightarrow> nat" where
  "dir_entry i = 6 + 16 * i"

section \<open>The routine on a heap\<close>

text \<open>
  The routine once more, with the byte arrays it touches held in a heap, so that what a
  run reads and what it writes can be told apart. The heap is the list of the byte arrays
  that exist, and an array is referred to by its index there. The \<open>data\<close> of an entry
  is a reference to its Uint8Array; \<^verbatim>\<open>new ArrayBuffer\<close> appends a zero-filled block
  and yields its index; the DataView writes into the block it was made for. In the program
  a reference always denotes an existing array; for an index outside the heap the
  operations below return \<open>None\<close>.
\<close>

type_synonym heap = "buffer list"

record image_object =
  object_width :: nat
  object_height :: nat
  object_data :: nat

definition heap_new_ArrayBuffer :: "host \<Rightarrow> heap \<Rightarrow> nat \<Rightarrow> (nat \<times> heap) option" where
  "heap_new_ArrayBuffer host h n =
     map_option (\<lambda>block. (length h, h @ [block])) (new_ArrayBuffer host n)"

definition heap_setUint8 :: "heap \<Rightarrow> nat \<Rightarrow> nat \<Rightarrow> nat \<Rightarrow> heap option" where
  "heap_setUint8 h view pos v =
     (if view < length h then map_option (\<lambda>block. h[view := block]) (setUint8 (h ! view) pos v)
      else None)"

definition heap_setUint16 :: "heap \<Rightarrow> nat \<Rightarrow> nat \<Rightarrow> nat \<Rightarrow> bool \<Rightarrow> heap option" where
  "heap_setUint16 h view pos v littleEndian =
     (if view < length h
      then map_option (\<lambda>block. h[view := block]) (setUint16 (h ! view) pos v littleEndian)
      else None)"

definition heap_setUint32 :: "heap \<Rightarrow> nat \<Rightarrow> nat \<Rightarrow> nat \<Rightarrow> bool \<Rightarrow> heap option" where
  "heap_setUint32 h view pos v littleEndian =
     (if view < length h
      then map_option (\<lambda>block. h[view := block]) (setUint32 (h ! view) pos v littleEndian)
      else None)"

text \<open>
  \<^verbatim>\<open>img.data.length\<close> and \<^verbatim>\<open>img.data[i]\<close>; the routine asks for an element only
  below the length.
\<close>

definition data_length :: "heap \<Rightarrow> nat \<Rightarrow> nat option" where
  "data_length h d = (if d < length h then Some (length (h ! d)) else None)"

definition data_at :: "heap \<Rightarrow> nat \<Rightarrow> nat \<Rightarrow> nat option" where
  "data_at h d i = (if d < length h \<and> i < length (h ! d) then Some (unat (h ! d ! i)) else None)"

fun heap_total_size :: "image_object list \<Rightarrow> heap \<Rightarrow> nat \<Rightarrow> nat option" where
  "heap_total_size [] h totalSize = Some totalSize"
| "heap_total_size (img # imgs) h totalSize = do {
     n \<leftarrow> data_length h (object_data img);
     heap_total_size imgs h (totalSize + n)
   }"

fun heap_write_directory ::
  "image_object list \<Rightarrow> heap \<Rightarrow> nat \<Rightarrow> nat \<Rightarrow> nat \<Rightarrow> (heap \<times> nat \<times> nat) option" where
  "heap_write_directory [] h view pos offset = Some (h, pos, offset)"
| "heap_write_directory (img # imgs) h view pos offset = do {
     let w = (if object_width img \<ge> 256 then 0 else object_width img);
     let hh = (if object_height img \<ge> 256 then 0 else object_height img);
     h \<leftarrow> heap_setUint8 h view pos w; let pos = pos + 1;
     h \<leftarrow> heap_setUint8 h view pos hh; let pos = pos + 1;
     h \<leftarrow> heap_setUint8 h view pos 0; let pos = pos + 1;
     h \<leftarrow> heap_setUint8 h view pos 0; let pos = pos + 1;
     h \<leftarrow> heap_setUint16 h view pos 1 True; let pos = pos + 2;
     h \<leftarrow> heap_setUint16 h view pos 32 True; let pos = pos + 2;
     n \<leftarrow> data_length h (object_data img);
     h \<leftarrow> heap_setUint32 h view pos n True; let pos = pos + 4;
     h \<leftarrow> heap_setUint32 h view pos offset True; let pos = pos + 4;
     n \<leftarrow> data_length h (object_data img);
     let offset = offset + n;
     heap_write_directory imgs h view pos offset
   }"

function heap_write_bytes :: "nat \<Rightarrow> nat \<Rightarrow> heap \<Rightarrow> nat \<Rightarrow> nat \<Rightarrow> (heap \<times> nat) option" where
  "heap_write_bytes d i h view pos =
     (case data_length h d of
        None \<Rightarrow> None
      | Some n \<Rightarrow>
          if i < n
          then do {
            v \<leftarrow> data_at h d i;
            h \<leftarrow> heap_setUint8 h view pos v;
            heap_write_bytes d (i + 1) h view (pos + 1)
          }
          else Some (h, pos))"
  by pat_completeness auto
termination
proof (relation "measure (\<lambda>(d, i, h, view, pos). length (h ! d) - i)", goal_cases)
  case 1
  show ?case by simp
next
  case (2 d i h view pos n v h')
  then show ?case
    by (cases "d = view")
       (auto simp add: data_length_def heap_setUint8_def setUint8_def split: if_splits)
qed

declare heap_write_bytes.simps [simp del]

fun heap_write_image_data ::
  "image_object list \<Rightarrow> heap \<Rightarrow> nat \<Rightarrow> nat \<Rightarrow> (heap \<times> nat) option" where
  "heap_write_image_data [] h view pos = Some (h, pos)"
| "heap_write_image_data (img # imgs) h view pos = do {
     (h, pos) \<leftarrow> heap_write_bytes (object_data img) 0 h view pos;
     heap_write_image_data imgs h view pos
   }"

definition assembleIco_heap :: "host \<Rightarrow> heap \<Rightarrow> image_object list \<Rightarrow> (nat \<times> heap) option" where
  "assembleIco_heap host h images = do {
     let count = length images;
     let offset = 6 + count * 16;
     totalSize \<leftarrow> heap_total_size images h offset;
     (buffer, h) \<leftarrow> heap_new_ArrayBuffer host h totalSize;
     let view = buffer;
     let pos = 0;
     h \<leftarrow> heap_setUint16 h view pos 0 True; let pos = pos + 2;
     h \<leftarrow> heap_setUint16 h view pos 1 True; let pos = pos + 2;
     h \<leftarrow> heap_setUint16 h view pos count True; let pos = pos + 2;
     (h, pos, offset) \<leftarrow> heap_write_directory images h view pos offset;
     (h, pos) \<leftarrow> heap_write_image_data images h view pos;
     Some (buffer, h)
   }"

text \<open>An entry as the routine sees it in a heap: its sizes and the bytes of its array.\<close>

definition loaded :: "heap \<Rightarrow> image_object \<Rightarrow> image" where
  "loaded h img =
     \<lparr>width = object_width img, height = object_height img, data = h ! object_data img\<rparr>"

section \<open>Example inputs\<close>

text \<open>
  Three icons whose sides are 256, 255 and 16 pixels, and two icons of which the second
  is not square and larger than 255 pixels both ways; a host that grants every block the
  language admits.
\<close>

definition unlimited_host :: host where
  "unlimited_host n = True"

text \<open>
  A host that grants 64 bytes at most, and two heaps that hold the payloads of the second
  example at different places, with the entries that refer to them.
\<close>

definition small_host :: host where
  "small_host n = (n \<le> 64)"

definition icon_heap :: heap where
  "icon_heap = [[1, 2, 3], [9, 8]]"

definition icon_objects :: "image_object list" where
  "icon_objects = [\<lparr>object_width = 16, object_height = 16, object_data = 0\<rparr>,
                   \<lparr>object_width = 256, object_height = 300, object_data = 1\<rparr>]"

definition other_heap :: heap where
  "other_heap = [[4], [9, 8], [1, 2, 3]]"

definition other_objects :: "image_object list" where
  "other_objects = [\<lparr>object_width = 16, object_height = 16, object_data = 2\<rparr>,
                    \<lparr>object_width = 256, object_height = 300, object_data = 1\<rparr>]"

definition sentinel_icons :: "image list" where
  "sentinel_icons = [\<lparr>width = 256, height = 256, data = [7]\<rparr>,
                     \<lparr>width = 255, height = 255, data = []\<rparr>,
                     \<lparr>width = 16, height = 16, data = [5, 6]\<rparr>]"

definition oblong_icons :: "image list" where
  "oblong_icons = [\<lparr>width = 16, height = 16, data = [1, 2, 3]\<rparr>,
                   \<lparr>width = 256, height = 300, data = [9, 8]\<rparr>]"

section \<open>The loops write the documented layout\<close>

lemma length_le16 [simp]: "length (le16 v) = 2" by (simp add: le16_def)
lemma length_le32 [simp]: "length (le32 v) = 4" by (simp add: le32_def)
lemma length_layout_record [simp]: "length (layout_record img off) = 16"
  by (simp add: layout_record_def)
lemma length_layout_header [simp]: "length (layout_header n) = 6"
  by (simp add: layout_header_def)

lemma length_records_from [simp]: "length (records_from imgs off) = 16 * length imgs"
  by (induction imgs arbitrary: off) auto

lemma upd_at_1: "(pre @ a # b # rest)[length pre + 1 := v] = pre @ a # v # rest"
  using list_update_length [of "pre @ [a]" b rest v] by simp

lemma upd_at_2: "(pre @ a # b # c # rest)[length pre + 2 := v] = pre @ a # b # v # rest"
  using list_update_length [of "pre @ [a, b]" c rest v] by simp

lemma upd_at_3:
  "(pre @ a # b # c # d # rest)[length pre + 3 := v] = pre @ a # b # c # v # rest"
  using list_update_length [of "pre @ [a, b, c]" d rest v] by (simp add: numeral_3_eq_3)

lemma setUint8_at:
  "setUint8 (pre @ x # rest) (length pre) v = Some (pre @ of_nat v # rest)"
  by (simp add: setUint8_def)

lemma setUint16_at:
  "setUint16 (pre @ a # b # rest) (length pre) v True = Some (pre @ le16 v @ rest)"
  unfolding setUint16_def le16_def by (simp only: upd_at_1 list_update_length) simp

lemma setUint32_at:
  "setUint32 (pre @ a # b # c # d # rest) (length pre) v True = Some (pre @ le32 v @ rest)"
  unfolding setUint32_def le32_def
  by (simp only: upd_at_1 upd_at_2 upd_at_3 list_update_length) simp

lemma set8_z:
  "setUint8 (p @ replicate (Suc n) 0 @ rest) (length p) v
   = Some ((p @ [of_nat v]) @ replicate n 0 @ rest)"
  using setUint8_at [of p 0 "replicate n 0 @ rest" v] by simp

lemma set16_z:
  "setUint16 (p @ replicate (Suc (Suc n)) 0 @ rest) (length p) v True
   = Some ((p @ le16 v) @ replicate n 0 @ rest)"
  using setUint16_at [of p 0 0 "replicate n 0 @ rest" v] by simp

lemma set32_z:
  "setUint32 (p @ replicate (Suc (Suc (Suc (Suc n)))) 0 @ rest) (length p) v True
   = Some ((p @ le32 v) @ replicate n 0 @ rest)"
  using setUint32_at [of p 0 0 0 0 "replicate n 0 @ rest" v] by simp

lemma write_record_at:
  "write_directory (img # imgs) (pre @ replicate 16 0 @ rest) (length pre) off =
   write_directory imgs (pre @ layout_record img off @ rest) (length pre + 16)
     (off + length (data img))"
proof -
  let ?w = "if 256 \<le> width img then 0 else width img"
  let ?h = "if 256 \<le> height img then 0 else height img"
  define p1 where "p1 = pre @ [of_nat ?w]"
  define p2 where "p2 = p1 @ [of_nat ?h]"
  define p3 where "p3 = p2 @ [of_nat 0]"
  define p4 where "p4 = p3 @ [of_nat 0]"
  define p5 where "p5 = p4 @ le16 1"
  define p6 where "p6 = p5 @ le16 32"
  define p7 where "p7 = p6 @ le32 (length (data img))"
  define p8 where "p8 = p7 @ le32 off"
  have l1: "length p1 = length pre + 1" by (simp add: p1_def)
  have l2: "length p2 = length pre + 1 + 1" by (simp add: p2_def l1)
  have l3: "length p3 = length pre + 1 + 1 + 1" by (simp add: p3_def l2)
  have l4: "length p4 = length pre + 1 + 1 + 1 + 1" by (simp add: p4_def l3)
  have l5: "length p5 = length pre + 1 + 1 + 1 + 1 + 2" by (simp add: p5_def l4)
  have l6: "length p6 = length pre + 1 + 1 + 1 + 1 + 2 + 2" by (simp add: p6_def l5)
  have l7: "length p7 = length pre + 1 + 1 + 1 + 1 + 2 + 2 + 4" by (simp add: p7_def l6)
  have e1: "setUint8 (pre @ replicate 16 0 @ rest) (length pre) ?w
            = Some (p1 @ replicate 15 0 @ rest)"
    using set8_z [of pre 15 rest ?w] by (simp add: p1_def)
  have e2: "setUint8 (p1 @ replicate 15 0 @ rest) (length pre + 1) ?h
            = Some (p2 @ replicate 14 0 @ rest)"
    using set8_z [of p1 14 rest ?h] by (simp add: p2_def l1)
  have e3: "setUint8 (p2 @ replicate 14 0 @ rest) (length pre + 1 + 1) 0
            = Some (p3 @ replicate 13 0 @ rest)"
    using set8_z [of p2 13 rest 0] by (simp add: p3_def l2)
  have e4: "setUint8 (p3 @ replicate 13 0 @ rest) (length pre + 1 + 1 + 1) 0
            = Some (p4 @ replicate 12 0 @ rest)"
    using set8_z [of p3 12 rest 0] by (simp add: p4_def l3)
  have e5: "setUint16 (p4 @ replicate 12 0 @ rest) (length pre + 1 + 1 + 1 + 1) 1 True
            = Some (p5 @ replicate 10 0 @ rest)"
    using set16_z [of p4 10 rest 1] by (simp add: p5_def l4)
  have e6: "setUint16 (p5 @ replicate 10 0 @ rest) (length pre + 1 + 1 + 1 + 1 + 2) 32 True
            = Some (p6 @ replicate 8 0 @ rest)"
    using set16_z [of p5 8 rest 32] by (simp add: p6_def l5)
  have e7: "setUint32 (p6 @ replicate 8 0 @ rest) (length pre + 1 + 1 + 1 + 1 + 2 + 2)
              (length (data img)) True
            = Some (p7 @ replicate 4 0 @ rest)"
    using set32_z [of p6 4 rest "length (data img)"] by (simp add: p7_def l6)
  have e8: "setUint32 (p7 @ replicate 4 0 @ rest) (length pre + 1 + 1 + 1 + 1 + 2 + 2 + 4)
              off True
            = Some (p8 @ rest)"
    using set32_z [of p7 0 rest off] by (simp add: p8_def l7 numeral_eq_Suc)
  have p8: "p8 = pre @ layout_record img off"
    by (auto simp add: p8_def p7_def p6_def p5_def p4_def p3_def p2_def p1_def
        layout_record_def)
  have pos: "length pre + 1 + 1 + 1 + 1 + 2 + 2 + 4 + 4 = length pre + 16" by simp
  show ?thesis
    by (simp only: write_directory.simps Let_def e1 e2 e3 e4 e5 e6 e7 e8 bind.simps p8 pos
        append_assoc)
qed

lemma payload_size_Cons [simp]:
  "payload_size (img # imgs) = length (data img) + payload_size imgs"
  by (simp add: payload_size_def)

lemma payload_size_Nil [simp]: "payload_size [] = 0"
  by (simp add: payload_size_def)

lemma write_directory_at:
  "write_directory imgs (pre @ replicate (16 * length imgs) 0 @ rest) (length pre) off
   = Some (pre @ records_from imgs off @ rest, length pre + 16 * length imgs,
           off + payload_size imgs)"
proof (induction imgs arbitrary: pre off)
  case Nil
  show ?case by simp
next
  case (Cons img imgs)
  have split: "replicate (16 * length (img # imgs)) (0::byte)
               = replicate 16 0 @ replicate (16 * length imgs) 0"
    by (simp add: replicate_add [symmetric])
  have "write_directory (img # imgs)
          (pre @ replicate (16 * length (img # imgs)) 0 @ rest) (length pre) off
        = write_directory imgs
            ((pre @ layout_record img off) @ replicate (16 * length imgs) 0 @ rest)
            (length (pre @ layout_record img off)) (off + length (data img))"
    unfolding split
    using write_record_at [of img imgs pre "replicate (16 * length imgs) 0 @ rest" off]
    by (simp only: append_assoc length_append length_layout_record)
  also have "\<dots> = Some ((pre @ layout_record img off)
                        @ records_from imgs (off + length (data img)) @ rest,
                      length (pre @ layout_record img off) + 16 * length imgs,
                      off + length (data img) + payload_size imgs)"
    by (rule Cons.IH)
  finally show ?case by (simp add: add.assoc)
qed

lemma write_bytes_at:
  "i \<le> length d \<Longrightarrow> length zs = length d - i \<Longrightarrow>
   write_bytes d i (pre @ zs @ rest) (length pre)
   = Some (pre @ drop i d @ rest, length pre + (length d - i))"
proof (induction n \<equiv> "length d - i" arbitrary: i pre zs)
  case 0
  then show ?case by (simp add: write_bytes.simps)
next
  case (Suc n)
  from Suc.hyps(2) have lt: "i < length d" by simp
  with Suc.prems obtain z zs' where zs: "zs = z # zs'" by (cases zs) auto
  have w: "setUint8 (pre @ zs @ rest) (length pre) (unat (d ! i))
           = Some ((pre @ [d ! i]) @ zs' @ rest)"
    using setUint8_at [of pre z "zs' @ rest" "unat (d ! i)"] by (simp add: zs)
  have n: "n = length d - (i + 1)" using Suc.hyps(2) by simp
  have "write_bytes d (i + 1) ((pre @ [d ! i]) @ zs' @ rest) (length (pre @ [d ! i]))
        = Some ((pre @ [d ! i]) @ drop (i + 1) d @ rest,
                length (pre @ [d ! i]) + (length d - (i + 1)))"
    using Suc.prems zs lt by (intro Suc.hyps(1) [OF n]) auto
  then have r: "write_bytes d (i + 1) ((pre @ [d ! i]) @ zs' @ rest) (length pre + 1)
        = Some (pre @ drop i d @ rest, length pre + (length d - i))"
    using lt by (simp add: Cons_nth_drop_Suc)
  show ?case
    by (subst write_bytes.simps) (simp only: lt if_True w bind.simps r)
qed

lemma write_image_data_at:
  "length zs = payload_size imgs \<Longrightarrow>
   write_image_data imgs (pre @ zs @ rest) (length pre)
   = Some (pre @ concat (map data imgs) @ rest, length pre + payload_size imgs)"
proof (induction imgs arbitrary: pre zs)
  case Nil
  then show ?case by simp
next
  case (Cons img imgs)
  define n where "n = length (data img)"
  have zs: "take n zs @ drop n zs @ rest = zs @ rest"
    by (metis append_assoc append_take_drop_id)
  have l1: "length (take n zs) = length (data img) - 0" using Cons.prems by (simp add: n_def)
  have l2: "length (drop n zs) = payload_size imgs" using Cons.prems by (simp add: n_def)
  have "write_bytes (data img) 0 (pre @ take n zs @ (drop n zs @ rest)) (length pre)
        = Some (pre @ drop 0 (data img) @ (drop n zs @ rest),
                length pre + (length (data img) - 0))"
    by (rule write_bytes_at [OF _ l1]) simp
  then have b: "write_bytes (data img) 0 (pre @ zs @ rest) (length pre)
        = Some ((pre @ data img) @ drop n zs @ rest, length (pre @ data img))"
    by (simp add: zs)
  show ?case
    using Cons.IH [OF l2, of "pre @ data img"] by (simp add: b add.assoc)
qed

lemma foldl_total:
  "foldl (\<lambda>totalSize img. totalSize + length (data img)) t imgs = t + payload_size imgs"
  by (induction imgs arbitrary: t) auto


lemma records_from_index:
  "concat (map (\<lambda>i. layout_record (imgs ! i) (off + payload_size (take i imgs)))
               [0..<length imgs]) = records_from imgs off"
proof (induction imgs arbitrary: off)
  case Nil
  show ?case by simp
next
  case (Cons img imgs)
  have "[0..<length (img # imgs)] = 0 # map Suc [0..<length imgs]"
    by (simp add: upt_conv_Cons map_Suc_upt del: upt_Suc)
  then show ?case
    using Cons.IH [of "off + length (data img)"] by (simp add: comp_def add.assoc)
qed

lemma layout_directory_eq:
  "layout_directory images = records_from images (6 + 16 * length images)"
  unfolding layout_directory_def payload_offset_def by (rule records_from_index)

lemma length_layout_directory [simp]: "length (layout_directory images) = 16 * length images"
  by (simp add: layout_directory_eq)

lemma length_concat_data: "length (concat (map data images)) = payload_size images"
  by (induction images) auto

lemma length_layout_container:
  "length (layout_container images) = 6 + 16 * length images + payload_size images"
  by (simp add: layout_container_def length_concat_data)

lemma header_at:
  "setUint16 (replicate (6 + n) 0) 0 0 True = Some (le16 0 @ replicate 4 0 @ replicate n 0)"
  "setUint16 (le16 0 @ replicate 4 0 @ replicate n 0) 2 1 True
   = Some ((le16 0 @ le16 1) @ replicate 2 0 @ replicate n 0)"
  "setUint16 ((le16 0 @ le16 1) @ replicate 2 0 @ replicate n 0) 4 count True
   = Some (layout_header count @ replicate n 0)"
proof -
  have r: "replicate (6 + n) (0::byte) = [] @ replicate (Suc (Suc 4)) 0 @ replicate n 0"
    by (simp add: replicate_add [symmetric])
  show "setUint16 (replicate (6 + n) 0) 0 0 True = Some (le16 0 @ replicate 4 0 @ replicate n 0)"
    unfolding r using set16_z [of "[]" 4 "replicate n 0" 0] by simp
  show "setUint16 (le16 0 @ replicate 4 0 @ replicate n 0) 2 1 True
            = Some ((le16 0 @ le16 1) @ replicate 2 0 @ replicate n 0)"
    using set16_z [of "le16 0" 2 "replicate n 0" 1] by simp
  show "setUint16 ((le16 0 @ le16 1) @ replicate 2 0 @ replicate n 0) 4 count True
            = Some (layout_header count @ replicate n 0)"
    using set16_z [of "le16 0 @ le16 1" 0 "replicate n 0" count]
    by (simp add: layout_header_def numeral_eq_Suc)
qed

lemma assembleIco_granted:
  assumes "new_ArrayBuffer host (6 + 16 * length images + payload_size images) = Some view"
  shows "assembleIco host images = Some (layout_container images)"
proof -
  define N where "N = length images"
  define S where "S = payload_size images"
  have "view = replicate (6 + 16 * N + S) 0"
    using assms by (simp add: new_ArrayBuffer_def N_def S_def split: if_splits)
  then have alloc: "new_ArrayBuffer host (6 + N * 16 + S) = Some (replicate (6 + (16 * N + S)) 0)"
    using assms by (simp add: N_def S_def mult.commute add.assoc)
  have dir: "write_directory images (layout_header N @ replicate (16 * N + S) 0)
               6 (6 + N * 16)
             = Some (layout_header N @ layout_directory images @ replicate S 0,
                     6 + 16 * N, 6 + 16 * N + S)"
    using write_directory_at [of images "layout_header N" "replicate S 0" "6 + 16 * N"]
    by (simp add: N_def S_def replicate_add layout_directory_eq mult.commute)
  have dat: "write_image_data images
               (layout_header N @ layout_directory images @ replicate S 0) (6 + 16 * N)
             = Some (layout_container images, 6 + 16 * N + S)"
    using write_image_data_at [of "replicate S 0" images
        "layout_header N @ layout_directory images" "[]"]
    by (simp add: N_def S_def layout_container_def)
  have a: "(0::nat) + 2 = 2" "(2::nat) + 2 = 4" "(4::nat) + 2 = 6" by simp_all
  show ?thesis
    apply (simp only: assembleIco_def Let_def foldl_total N_def [symmetric] S_def [symmetric])
    apply (simp only: a)
    apply (simp only: alloc bind.simps header_at dir dat prod.case)
    done
qed

lemma assembleIco_refused:
  "new_ArrayBuffer host (6 + 16 * length images + payload_size images) = None \<Longrightarrow>
   assembleIco host images = None"
  by (simp add: assembleIco_def Let_def foldl_total mult.commute)

lemma assembleIco_layout:
  "assembleIco host images =
     map_option (\<lambda>view. layout_container images)
       (new_ArrayBuffer host (6 + 16 * length images + payload_size images))"
proof (cases "new_ArrayBuffer host (6 + 16 * length images + payload_size images)")
  case None
  then show ?thesis by (simp add: assembleIco_refused)
next
  case (Some view)
  then show ?thesis by (simp add: assembleIco_granted)
qed

section \<open>Reading the container\<close>

lemma bytes16: "x mod 256 + 256 * (x div 256 mod 256) = x mod 65536" for x :: nat
  using mod_mult2_eq [of x 256 256] by simp

lemma bytes32:
  "x mod 256 + 256 * (x div 256 mod 256) + 65536 * (x div 65536 mod 256)
   + 16777216 * (x div 16777216 mod 256) = x mod 4294967296" for x :: nat
proof -
  have a: "x mod 4294967296 = 65536 * (x div 65536 mod 65536) + x mod 65536"
    using mod_mult2_eq [of x 65536 65536] by simp
  have b: "x div 65536 mod 65536
           = (x div 65536) mod 256 + 256 * (x div 65536 div 256 mod 256)"
    using bytes16 [of "x div 65536"] by simp
  have c: "x div 65536 div 256 = x div 16777216"
    by (simp add: div_mult2_eq [symmetric])
  show ?thesis using a b c bytes16 [of x] by simp
qed

lemma unat_byte: "unat (of_nat x :: byte) = x mod 256"
  by (simp add: unat_of_nat)

lemma getUint16_le16: "getUint16 (le16 v) 0 True = Some (v mod 65536)"
  by (simp add: getUint16_def le16_def unat_byte bytes16)

lemma getUint32_le32: "getUint32 (le32 v) 0 True = Some (v mod 4294967296)"
  by (simp add: getUint32_def le32_def unat_byte bytes32 numeral_3_eq_3)

lemma getUint8_mid:
  "k < length r \<Longrightarrow> getUint8 (a @ r @ b) (length a + k) = Some (unat (r ! k))"
  by (simp add: getUint8_def nth_append)

lemma getUint16_mid:
  "length r = 2 \<Longrightarrow> getUint16 (a @ r @ b) (length a) True = getUint16 r 0 True"
  by (simp add: getUint16_def nth_append)

lemma getUint32_mid:
  "length r = 4 \<Longrightarrow> getUint32 (a @ r @ b) (length a) True = getUint32 r 0 True"
  by (simp add: getUint32_def nth_append numeral_2_eq_2)

lemma getUint16_at:
  "length a = p \<Longrightarrow> getUint16 (a @ le16 v @ b) p True = Some (v mod 65536)"
  using getUint16_mid [of "le16 v" a b] by (simp add: getUint16_le16)

lemma getUint32_at:
  "length a = p \<Longrightarrow> getUint32 (a @ le32 v @ b) p True = Some (v mod 4294967296)"
  using getUint32_mid [of "le32 v" a b] by (simp add: getUint32_le32)


lemma length_concat_records:
  "length (concat (map (\<lambda>i. layout_record (f i) (g i)) xs)) = 16 * length xs"
  by (induction xs) auto

lemma container_record:
  assumes "i < length images"
  shows "\<exists>a b. layout_container images
               = a @ layout_record (images ! i) (payload_offset images i) @ b
             \<and> length a = dir_entry i"
proof -
  let ?f = "\<lambda>i. layout_record (images ! i) (payload_offset images i)"
  have "[0..<length images] = [0..<i] @ i # [Suc i..<length images]"
    using assms by (metis le_add1 le_add_same_cancel1 less_imp_add_positive upt_add_eq_append
        upt_conv_Cons)
  then have "layout_directory images
             = concat (map ?f [0..<i]) @ ?f i @ concat (map ?f [Suc i..<length images])"
    by (simp add: layout_directory_def)
  then have "layout_container images
             = (layout_header (length images) @ concat (map ?f [0..<i])) @ ?f i
               @ (concat (map ?f [Suc i..<length images]) @ concat (map data images))"
    by (simp add: layout_container_def)
  moreover have "length (layout_header (length images) @ concat (map ?f [0..<i])) = dir_entry i"
    by (simp add: length_concat_records dir_entry_def)
  ultimately show ?thesis by blast
qed

lemma record_fields:
  assumes "length a = p"
  shows "getUint8 (a @ layout_record img off @ b) p
         = Some (if width img < 256 then width img else 0)"
    and "getUint8 (a @ layout_record img off @ b) (p + 1)
         = Some (if height img < 256 then height img else 0)"
    and "getUint8 (a @ layout_record img off @ b) (p + 2) = Some 0"
    and "getUint8 (a @ layout_record img off @ b) (p + 3) = Some 0"
    and "getUint16 (a @ layout_record img off @ b) (p + 4) True = Some 1"
    and "getUint16 (a @ layout_record img off @ b) (p + 6) True = Some 32"
    and "getUint32 (a @ layout_record img off @ b) (p + 8) True
         = Some (length (data img) mod 4294967296)"
    and "getUint32 (a @ layout_record img off @ b) (p + 12) True
         = Some (off mod 4294967296)"
proof -
  let ?r = "layout_record img off"
  have p: "p = length a" using assms by simp
  have n: "?r ! 0 = of_nat (if width img < 256 then width img else 0)"
    "?r ! Suc 0 = of_nat (if height img < 256 then height img else 0)"
    "?r ! 2 = 0" "?r ! 3 = 0"
    by (simp_all add: layout_record_def)
  show "getUint8 (a @ ?r @ b) p = Some (if width img < 256 then width img else 0)"
    using getUint8_mid [of 0 ?r a b] by (simp add: p n unat_byte)
  show "getUint8 (a @ ?r @ b) (p + 1) = Some (if height img < 256 then height img else 0)"
    using getUint8_mid [of 1 ?r a b] by (simp add: p n unat_byte)
  show "getUint8 (a @ ?r @ b) (p + 2) = Some 0"
    using getUint8_mid [of 2 ?r a b] by (simp add: p n)
  show "getUint8 (a @ ?r @ b) (p + 3) = Some 0"
    using getUint8_mid [of 3 ?r a b] by (simp add: p n)
  show "getUint16 (a @ ?r @ b) (p + 4) True = Some 1"
    using getUint16_at [of "a @ take 4 ?r" "p + 4" 1 "drop 6 ?r @ b"]
    by (simp add: p layout_record_def)
  show "getUint16 (a @ ?r @ b) (p + 6) True = Some 32"
    using getUint16_at [of "a @ take 6 ?r" "p + 6" 32 "drop 8 ?r @ b"]
    by (simp add: p layout_record_def)
  show "getUint32 (a @ ?r @ b) (p + 8) True = Some (length (data img) mod 4294967296)"
    using getUint32_at [of "a @ take 8 ?r" "p + 8" "length (data img)" "drop 12 ?r @ b"]
    by (simp add: p layout_record_def)
  show "getUint32 (a @ ?r @ b) (p + 12) True = Some (off mod 4294967296)"
    using getUint32_at [of "a @ take 12 ?r" "p + 12" off b]
    by (simp add: p layout_record_def)
qed

lemma assembleIco_Some:
  "assembleIco host images = Some buf \<Longrightarrow> buf = layout_container images"
  by (auto simp add: assembleIco_layout)

lemma container_header:
  "getUint16 (layout_container images) 0 True = Some 0"
  "getUint16 (layout_container images) 2 True = Some 1"
  "getUint16 (layout_container images) 4 True = Some (length images mod 65536)"
proof -
  let ?n = "length images"
  let ?t = "layout_directory images @ concat (map data images)"
  have c: "layout_container images = [] @ le16 0 @ (le16 1 @ le16 ?n @ ?t)"
    "layout_container images = le16 0 @ le16 1 @ (le16 ?n @ ?t)"
    "layout_container images = (le16 0 @ le16 1) @ le16 ?n @ ?t"
    by (simp_all add: layout_container_def layout_header_def)
  show "getUint16 (layout_container images) 0 True = Some 0"
    by (subst c(1), subst getUint16_at) simp_all
  show "getUint16 (layout_container images) 2 True = Some 1"
    by (subst c(2), subst getUint16_at) simp_all
  show "getUint16 (layout_container images) 4 True = Some (length images mod 65536)"
    by (subst c(3), subst getUint16_at) simp_all
qed

lemma payload_size_append [simp]:
  "payload_size (xs @ ys) = payload_size xs + payload_size ys"
  by (simp add: payload_size_def)

lemma payload_size_take_Suc:
  "i < length images \<Longrightarrow>
   payload_size (take (Suc i) images) = payload_size (take i images) + length (data (images ! i))"
  by (simp add: take_Suc_conv_app_nth)

lemma payload_size_take_mono:
  "i \<le> j \<Longrightarrow> payload_size (take i images) \<le> payload_size (take j images)"
proof -
  assume "i \<le> j"
  then have "take j images = take i images @ take (j - i) (drop i images)"
    by (metis le_add_diff_inverse take_add)
  then show ?thesis by simp
qed

lemma payload_regions_ordered:
  assumes "i < j" "j < length images"
  shows "payload_offset images i + length (data (images ! i)) \<le> payload_offset images j"
proof -
  have "payload_size (take (Suc i) images) \<le> payload_size (take j images)"
    using assms by (intro payload_size_take_mono) simp
  then show ?thesis using assms by (simp add: payload_offset_def payload_size_take_Suc)
qed

lemma container_payload:
  assumes "i < length images"
  shows "slice (layout_container images) (payload_offset images i)
           (payload_offset images i + length (data (images ! i))) = data (images ! i)"
proof -
  define a where "a = layout_header (length images) @ layout_directory images
            @ concat (map data (take i images))"
  have "images = take i images @ images ! i # drop (Suc i) images"
    using assms by (simp add: id_take_nth_drop [symmetric])
  then have "concat (map data images)
             = concat (map data (take i images)) @ data (images ! i)
               @ concat (map data (drop (Suc i) images))"
    by (metis concat.simps(2) concat_append list.simps(9) map_append)
  then have c: "layout_container images
           = a @ data (images ! i) @ concat (map data (drop (Suc i) images))"
    by (simp add: layout_container_def a_def)
  have l: "payload_offset images i = length a"
    by (simp add: payload_offset_def length_concat_data a_def)
  show ?thesis
    unfolding slice_def c l by simp
qed

lemma container_data_section:
  "drop (dir_entry (length images)) (layout_container images) = concat (map data images)"
  by (simp add: layout_container_def dir_entry_def)

lemma container_record_slice:
  assumes "i < length images"
  shows "slice (layout_container images) (dir_entry i) (dir_entry i + 16)
         = layout_record (images ! i) (payload_offset images i)"
proof -
  from container_record [OF assms] obtain a b where
    c: "layout_container images = a @ layout_record (images ! i) (payload_offset images i) @ b"
    and l: "length a = dir_entry i" by blast
  show ?thesis unfolding slice_def c by (simp add: l [symmetric] del: length_append)
qed

lemma container_fields:
  assumes "i < length images"
  shows "getUint8 (layout_container images) (dir_entry i)
         = Some (if width (images ! i) < 256 then width (images ! i) else 0)"
    and "getUint8 (layout_container images) (dir_entry i + 1)
         = Some (if height (images ! i) < 256 then height (images ! i) else 0)"
    and "getUint8 (layout_container images) (dir_entry i + 2) = Some 0"
    and "getUint8 (layout_container images) (dir_entry i + 3) = Some 0"
    and "getUint16 (layout_container images) (dir_entry i + 4) True = Some 1"
    and "getUint16 (layout_container images) (dir_entry i + 6) True = Some 32"
    and "getUint32 (layout_container images) (dir_entry i + 8) True
         = Some (length (data (images ! i)) mod 4294967296)"
    and "getUint32 (layout_container images) (dir_entry i + 12) True
         = Some (payload_offset images i mod 4294967296)"
proof -
  from container_record [OF assms] obtain a b where
    c: "layout_container images = a @ layout_record (images ! i) (payload_offset images i) @ b"
    and l: "length a = dir_entry i" by blast
  note f = record_fields [OF l, of "images ! i" "payload_offset images i" b, folded c]
  show "getUint8 (layout_container images) (dir_entry i)
         = Some (if width (images ! i) < 256 then width (images ! i) else 0)" by (rule f)
  show "getUint8 (layout_container images) (dir_entry i + 1)
         = Some (if height (images ! i) < 256 then height (images ! i) else 0)" by (rule f)
  show "getUint8 (layout_container images) (dir_entry i + 2) = Some 0" by (rule f)
  show "getUint8 (layout_container images) (dir_entry i + 3) = Some 0" by (rule f)
  show "getUint16 (layout_container images) (dir_entry i + 4) True = Some 1" by (rule f)
  show "getUint16 (layout_container images) (dir_entry i + 6) True = Some 32" by (rule f)
  show "getUint32 (layout_container images) (dir_entry i + 8) True
         = Some (length (data (images ! i)) mod 4294967296)" by (rule f)
  show "getUint32 (layout_container images) (dir_entry i + 12) True
         = Some (payload_offset images i mod 4294967296)" by (rule f)
qed

section \<open>Totals\<close>

lemma assembleIco_fits:
  "6 + 16 * length images + payload_size images \<le> max_byte_length \<Longrightarrow>
   assembleIco unlimited_host images = Some (layout_container images)"
  by (simp add: assembleIco_layout new_ArrayBuffer_def unlimited_host_def)

lemma payload_size_replicate: "payload_size (replicate n img) = n * length (data img)"
  by (induction n) auto

lemma payload_end_le_total:
  assumes "i < length images"
  shows "payload_offset images i + length (data (images ! i))
         \<le> 6 + 16 * length images + payload_size images"
proof -
  have "payload_size (take (Suc i) images) \<le> payload_size (take (length images) images)"
    using assms by (intro payload_size_take_mono) simp
  then show ?thesis using assms by (simp add: payload_offset_def payload_size_take_Suc)
qed

section \<open>On a heap the routine writes the same bytes into a new block\<close>

lemma loaded_simps [simp]:
  "width (loaded h img) = object_width img"
  "height (loaded h img) = object_height img"
  "data (loaded h img) = h ! object_data img"
  by (simp_all add: loaded_def)

lemma loaded_update:
  "object_data img \<noteq> b \<Longrightarrow> loaded (h[b := block]) img = loaded h img"
  by (simp add: loaded_def)

lemma map_loaded_update:
  "\<forall>img \<in> set imgs. object_data img \<noteq> b \<Longrightarrow>
   map (loaded (h[b := block])) imgs = map (loaded h) imgs"
  by (simp add: loaded_update)

lemma heap_total_size_sim:
  "\<forall>img \<in> set imgs. object_data img < length h \<Longrightarrow>
   heap_total_size imgs h t
   = Some (foldl (\<lambda>totalSize img. totalSize + length (data img)) t (map (loaded h) imgs))"
  by (induction imgs arbitrary: t) (simp_all add: data_length_def)

lemma heap_write_directory_sim:
  "b < length h \<Longrightarrow>
   \<forall>img \<in> set imgs. object_data img < length h \<and> object_data img \<noteq> b \<Longrightarrow>
   heap_write_directory imgs h b pos off
   = map_option (\<lambda>(view, pos, off). (h[b := view], pos, off))
       (write_directory (map (loaded h) imgs) (h ! b) pos off)"
proof (induction imgs arbitrary: h pos off)
  case Nil
  then show ?case by simp
next
  case (Cons img imgs)
  have d: "object_data img < length h" "object_data img \<noteq> b"
    and rest: "\<forall>img \<in> set imgs. object_data img < length h \<and> object_data img \<noteq> b"
    using Cons.prems(2) by simp_all
  have ih: "heap_write_directory imgs (h[b := block]) b p q
            = map_option (\<lambda>(view, pos, off). (h[b := view], pos, off))
                (write_directory (map (loaded h) imgs) block p q)" for block p q
    using Cons.IH [of "h[b := block]" p q] Cons.prems(1) rest
    by (simp add: map_loaded_update)
  show ?case
    using Cons.prems(1) d
    by (simp add: heap_setUint8_def heap_setUint16_def heap_setUint32_def Let_def
        bind_map_option map_option_bind comp_def data_length_def ih)
qed

lemma heap_write_bytes_sim:
  "b < length h \<Longrightarrow> d < length h \<Longrightarrow> d \<noteq> b \<Longrightarrow>
   heap_write_bytes d i h b pos
   = map_option (\<lambda>(view, pos). (h[b := view], pos)) (write_bytes (h ! d) i (h ! b) pos)"
proof (induction n \<equiv> "length (h ! d) - i" arbitrary: i h pos)
  case 0
  then show ?case
    by (subst heap_write_bytes.simps, subst write_bytes.simps) (simp add: data_length_def)
next
  case (Suc n)
  from Suc.hyps(2) have lt: "i < length (h ! d)" by simp
  have ih: "heap_write_bytes d (Suc i) (h[b := block]) b p
            = map_option (\<lambda>(view, pos). (h[b := view], pos))
                (write_bytes (h ! d) (Suc i) block p)" for block p
    using Suc.hyps(1) [of "h[b := block]" "Suc i" p] Suc.hyps(2) Suc.prems by simp
  show ?case
    using Suc.prems lt
    by (subst heap_write_bytes.simps, subst write_bytes.simps)
       (simp add: data_length_def data_at_def heap_setUint8_def bind_map_option map_option_bind
          comp_def ih)
qed

lemma heap_write_image_data_sim:
  "b < length h \<Longrightarrow>
   \<forall>img \<in> set imgs. object_data img < length h \<and> object_data img \<noteq> b \<Longrightarrow>
   heap_write_image_data imgs h b pos
   = map_option (\<lambda>(view, pos). (h[b := view], pos))
       (write_image_data (map (loaded h) imgs) (h ! b) pos)"
proof (induction imgs arbitrary: h pos)
  case Nil
  then show ?case by simp
next
  case (Cons img imgs)
  have d: "object_data img < length h" "object_data img \<noteq> b"
    and rest: "\<forall>img \<in> set imgs. object_data img < length h \<and> object_data img \<noteq> b"
    using Cons.prems(2) by simp_all
  have ih: "heap_write_image_data imgs (h[b := block]) b p
            = map_option (\<lambda>(view, pos). (h[b := view], pos))
                (write_image_data (map (loaded h) imgs) block p)" for block p
    using Cons.IH [of "h[b := block]" p] Cons.prems(1) rest
    by (simp add: map_loaded_update)
  show ?case
    using Cons.prems(1) d
    by (simp add: heap_write_bytes_sim bind_map_option map_option_bind comp_def ih
        split_def)
qed

lemma map_loaded_append:
  "\<forall>img \<in> set imgs. object_data img < length h \<Longrightarrow>
   map (loaded (h @ [block])) imgs = map (loaded h) imgs"
  by (simp add: loaded_def nth_append)

lemma assembleIco_heap_sim:
  assumes "\<forall>img \<in> set images. object_data img < length h"
  shows "assembleIco_heap host h images
         = map_option (\<lambda>buf. (length h, h @ [buf])) (assembleIco host (map (loaded h) images))"
proof -
  have v: "\<forall>img \<in> set images. object_data img < length (h @ [block])
                                \<and> object_data img \<noteq> length h" for block
    using assms by auto
  have dir: "heap_write_directory images (h @ [block]) (length h) p q
             = map_option (\<lambda>(view, pos, off). (h @ [view], pos, off))
                 (write_directory (map (loaded h) images) block p q)" for block p q
    using heap_write_directory_sim [of "length h" "h @ [block]" images p q] v [of block]
    by (simp add: map_loaded_append [OF assms])
  have dat: "heap_write_image_data images (h @ [block]) (length h) p
             = map_option (\<lambda>(view, pos). (h @ [view], pos))
                 (write_image_data (map (loaded h) images) block p)" for block p
    using heap_write_image_data_sim [of "length h" "h @ [block]" images p] v [of block]
    by (simp add: map_loaded_append [OF assms])
  show ?thesis
    by (simp add: assembleIco_heap_def assembleIco_def heap_total_size_sim [OF assms]
        heap_new_ArrayBuffer_def heap_setUint16_def Let_def bind_map_option map_option_bind
        comp_def split_def dir dat)
qed

lemma heap_total_size_refs:
  "heap_total_size imgs h t = Some n \<Longrightarrow> \<forall>img \<in> set imgs. object_data img < length h"
  by (induction imgs arbitrary: t)
     (auto simp add: data_length_def bind_eq_Some_conv split: if_splits)

lemma assembleIco_heap_refs:
  assumes "assembleIco_heap host h images \<noteq> None"
  shows "\<forall>img \<in> set images. object_data img < length h"
proof -
  from assms obtain n where "heap_total_size images h (6 + length images * 16) = Some n"
    by (cases "heap_total_size images h (6 + length images * 16)")
       (auto simp add: assembleIco_heap_def Let_def)
  then show ?thesis by (rule heap_total_size_refs)
qed

section \<open>Worked examples\<close>

lemmas layout_eval = layout_container_def layout_directory_def layout_record_def
  layout_header_def le16_def le32_def payload_offset_def payload_size_def max_byte_length_def
  new_ArrayBuffer_def unlimited_host_def

lemma sentinel_run:
  "assembleIco unlimited_host sentinel_icons
   = Some [0, 0, 1, 0, 3, 0,
           0, 0, 0, 0, 1, 0, 32, 0, 1, 0, 0, 0, 54, 0, 0, 0,
           255, 255, 0, 0, 1, 0, 32, 0, 0, 0, 0, 0, 55, 0, 0, 0,
           16, 16, 0, 0, 1, 0, 32, 0, 2, 0, 0, 0, 55, 0, 0, 0,
           7, 5, 6]"
  by (simp add: assembleIco_layout layout_eval sentinel_icons_def)

lemma oblong_run:
  "assembleIco unlimited_host oblong_icons
   = Some [0, 0, 1, 0, 2, 0,
           16, 16, 0, 0, 1, 0, 32, 0, 3, 0, 0, 0, 38, 0, 0, 0,
           0, 0, 0, 0, 1, 0, 32, 0, 2, 0, 0, 0, 41, 0, 0, 0,
           1, 2, 3, 9, 8]"
  by (simp add: assembleIco_layout layout_eval oblong_icons_def)

lemma small_run:
  "assembleIco small_host oblong_icons
   = Some [0, 0, 1, 0, 2, 0,
           16, 16, 0, 0, 1, 0, 32, 0, 3, 0, 0, 0, 38, 0, 0, 0,
           0, 0, 0, 0, 1, 0, 32, 0, 2, 0, 0, 0, 41, 0, 0, 0,
           1, 2, 3, 9, 8]"
  by (simp add: assembleIco_layout layout_eval oblong_icons_def small_host_def)

section \<open>The claims\<close>

text \<open>
  C1, as far as it holds. Let \<open>assembleIco\<close> return a buffer and let \<open>i\<close> be the
  index of an entry. Record \<open>i\<close> of the directory stores, as little-endian 32-bit
  fields, the offset \<open>6 + 16 * N +\<close> (sum of the payload lengths of the entries before
  \<open>i\<close>) and the length of payload \<open>i\<close>, both reduced modulo \<open>2^32\<close>; for a buffer
  shorter than \<open>2^32\<close> bytes they are stored unchanged. The bytes of the buffer from that
  offset, for that length, are the payload of entry \<open>i\<close>, and the payload of a later
  entry starts at or after the end of this one, so no two payload regions overlap. The
  claim as stated, for every list of entries, fails: a payload of \<open>2^32\<close> bytes is
  recorded with size 0.
\<close>

theorem payload_offsets_and_sizes:
  assumes "assembleIco host images = Some buf" and "i < length images"
  shows "getUint32 buf (dir_entry i + 12) True = Some (payload_offset images i mod 2 ^ 32)
   \<and> getUint32 buf (dir_entry i + 8) True = Some (length (data (images ! i)) mod 2 ^ 32)
   \<and> (length buf < 2 ^ 32 \<longrightarrow>
        getUint32 buf (dir_entry i + 12) True = Some (payload_offset images i)
        \<and> getUint32 buf (dir_entry i + 8) True = Some (length (data (images ! i))))
   \<and> slice buf (payload_offset images i) (payload_offset images i + length (data (images ! i)))
       = data (images ! i)
   \<and> (\<forall>j < length images. i < j \<longrightarrow>
        payload_offset images i + length (data (images ! i)) \<le> payload_offset images j)"
proof -
  have b: "buf = layout_container images" using assms(1) by (rule assembleIco_Some)
  have off: "getUint32 buf (dir_entry i + 12) True = Some (payload_offset images i mod 2 ^ 32)"
    unfolding b using container_fields(8) [OF assms(2)] by simp
  have sz: "getUint32 buf (dir_entry i + 8) True
            = Some (length (data (images ! i)) mod 2 ^ 32)"
    unfolding b using container_fields(7) [OF assms(2)] by simp
  have small: "payload_offset images i < 2 ^ 32 \<and> length (data (images ! i)) < 2 ^ 32"
    if "length buf < 2 ^ 32"
    using that payload_end_le_total [OF assms(2)]
    by (simp add: b length_layout_container)
  have sl: "slice buf (payload_offset images i)
              (payload_offset images i + length (data (images ! i))) = data (images ! i)"
    unfolding b by (rule container_payload [OF assms(2)])
  show ?thesis
    using off sz small sl payload_regions_ordered [of i _ images] by auto
qed

theorem payload_offsets_and_sizes_witness:
  "assembleIco unlimited_host oblong_icons \<noteq> None \<and> 0 < length oblong_icons
   \<and> data (oblong_icons ! 0) = [1, 2, 3]
   \<and> getUint32 (the (assembleIco unlimited_host oblong_icons)) (dir_entry 0 + 12) True = Some (6 + 16 * 2)
   \<and> getUint32 (the (assembleIco unlimited_host oblong_icons)) (dir_entry 0 + 8) True = Some 3
   \<and> slice (the (assembleIco unlimited_host oblong_icons)) 38 (38 + 3) = [1, 2, 3]
   \<and> getUint32 (the (assembleIco unlimited_host oblong_icons)) (dir_entry 1 + 12) True = Some (6 + 16 * 2 + 3)
   \<and> getUint32 (the (assembleIco unlimited_host oblong_icons)) (dir_entry 1 + 8) True = Some 2
   \<and> slice (the (assembleIco unlimited_host oblong_icons)) 41 (41 + 2) = [9, 8]"
proof -
  have l: "0 < length oblong_icons" "1 < length oblong_icons"
    by (simp_all add: oblong_icons_def)
  have o: "payload_offset oblong_icons 0 = 38" "payload_offset oblong_icons (Suc 0) = 41"
    by (simp_all add: oblong_icons_def payload_offset_def payload_size_def)
  have d: "data (oblong_icons ! 0) = [1, 2, 3]" "data (oblong_icons ! Suc 0) = [9, 8]"
    "length oblong_icons = 2"
    by (simp_all add: oblong_icons_def)
  show ?thesis
    unfolding oblong_run option.sel
    using payload_offsets_and_sizes [OF oblong_run l(1)]
      payload_offsets_and_sizes [OF oblong_run l(2)]
    by (simp add: o d dir_entry_def)
qed

text \<open>
  One entry whose payload has \<open>2^32\<close> bytes: the routine returns, and the size field of
  its record reads 0.
\<close>

theorem data_size_counterexample:
  "assembleIco unlimited_host [\<lparr>width = 16, height = 16, data = replicate (2 ^ 32) 0\<rparr>] \<noteq> None
   \<and> getUint32 (the (assembleIco unlimited_host [\<lparr>width = 16, height = 16, data = replicate (2 ^ 32) 0\<rparr>]))
        (dir_entry 0 + 8) True = Some 0
   \<and> length (data \<lparr>width = 16, height = 16, data = replicate (2 ^ 32) 0\<rparr>) = 4294967296"
proof -
  let ?imgs = "[\<lparr>width = 16, height = 16, data = replicate (2 ^ 32) (0::byte)\<rparr>]"
  have r: "assembleIco unlimited_host ?imgs = Some (layout_container ?imgs)"
    by (rule assembleIco_fits) (simp add: max_byte_length_def)
  have "getUint32 (layout_container ?imgs) (dir_entry 0 + 8) True = Some 0"
    using container_fields(7) [of 0 ?imgs] by simp
  then show ?thesis unfolding r option.sel by simp
qed

text \<open>
  C2. For every list of \<open>N\<close> entries, the buffer that \<open>assembleIco\<close> returns has
  length exactly \<open>6 + 16 * N\<close> plus the sum of the lengths of all payloads.
\<close>

theorem assemble_length:
  "assembleIco host images = Some buf \<Longrightarrow>
   length buf = 6 + 16 * length images + sum_list (map (\<lambda>img. length (data img)) images)"
  using assembleIco_Some [of host images buf] length_layout_container [of images]
  by (simp add: payload_size_def)

theorem assemble_length_witness:
  "assembleIco unlimited_host oblong_icons \<noteq> None
   \<and> length oblong_icons = 2
   \<and> map (\<lambda>img. length (data img)) oblong_icons = [3, 2]
   \<and> length (the (assembleIco unlimited_host oblong_icons)) = 6 + 16 * 2 + (3 + 2)"
  using assemble_length [OF oblong_run] by (simp add: oblong_run) (simp add: oblong_icons_def)

text \<open>
  C3, as far as it holds. The first six bytes of the buffer are three little-endian
  16-bit fields: reserved 0, type 1, and the number of entries reduced modulo \<open>2^16\<close>,
  which is the number of entries itself for every list of at most 65535 entries. The
  claim as stated, for every list, fails: with 65536 entries the count field reads 0.
\<close>

theorem header_fields:
  "assembleIco host images = Some buf \<Longrightarrow>
   getUint16 buf 0 True = Some 0 \<and> getUint16 buf 2 True = Some 1
   \<and> getUint16 buf 4 True = Some (length images mod 2 ^ 16)
   \<and> (length images \<le> 65535 \<longrightarrow> getUint16 buf 4 True = Some (length images))"
  using assembleIco_Some [of host images buf] by (simp add: container_header)

theorem header_fields_witness:
  "assembleIco unlimited_host (replicate 65535 \<lparr>width = 16, height = 16, data = [0]\<rparr>) \<noteq> None
   \<and> getUint16 (the (assembleIco unlimited_host (replicate 65535 \<lparr>width = 16, height = 16, data = [0]\<rparr>)))
        0 True = Some 0
   \<and> getUint16 (the (assembleIco unlimited_host (replicate 65535 \<lparr>width = 16, height = 16, data = [0]\<rparr>)))
        2 True = Some 1
   \<and> getUint16 (the (assembleIco unlimited_host (replicate 65535 \<lparr>width = 16, height = 16, data = [0]\<rparr>)))
        4 True = Some 65535"
proof -
  let ?imgs = "replicate 65535 \<lparr>width = 16, height = 16, data = [0::byte]\<rparr>"
  have r: "assembleIco unlimited_host ?imgs = Some (layout_container ?imgs)"
    by (rule assembleIco_fits) (simp add: payload_size_replicate max_byte_length_def)
  show ?thesis
    unfolding r option.sel using header_fields [OF r] by simp
qed

text \<open>
  With 65536 entries the routine still returns, and the count field of the result is 0.
\<close>

theorem header_count_counterexample:
  "assembleIco unlimited_host (replicate 65536 \<lparr>width = 16, height = 16, data = [0]\<rparr>) \<noteq> None
   \<and> getUint16 (the (assembleIco unlimited_host (replicate 65536 \<lparr>width = 16, height = 16, data = [0]\<rparr>)))
        4 True = Some 0
   \<and> length (replicate 65536 \<lparr>width = 16, height = 16, data = [0]\<rparr>) = 65536"
proof -
  let ?imgs = "replicate 65536 \<lparr>width = 16, height = 16, data = [0::byte]\<rparr>"
  have r: "assembleIco unlimited_host ?imgs = Some (layout_container ?imgs)"
    by (rule assembleIco_fits) (simp add: payload_size_replicate max_byte_length_def)
  have "getUint16 (layout_container ?imgs) 4 True = Some 0"
    by (simp add: container_header)
  then show ?thesis by (simp add: r)
qed

text \<open>
  C4. In record \<open>i\<close> of the directory the width byte and the height byte hold the
  entry's width and height when the dimension is below 256, and 0 when it is 256 or
  more. The witness has widths 256, 255 and 16, encoded as 0, 255 and 16.
\<close>

theorem width_height_bytes:
  assumes "assembleIco host images = Some buf" and "i < length images"
  shows "getUint8 buf (dir_entry i)
           = Some (if width (images ! i) < 256 then width (images ! i) else 0)
         \<and> getUint8 buf (dir_entry i + 1)
           = Some (if height (images ! i) < 256 then height (images ! i) else 0)"
  unfolding assembleIco_Some [OF assms(1)]
  using container_fields(1,2) [OF assms(2)] by simp

theorem width_height_bytes_witness:
  "assembleIco unlimited_host sentinel_icons \<noteq> None
   \<and> map width sentinel_icons = [256, 255, 16]
   \<and> map height sentinel_icons = [256, 255, 16]
   \<and> getUint8 (the (assembleIco unlimited_host sentinel_icons)) (dir_entry 0) = Some 0
   \<and> getUint8 (the (assembleIco unlimited_host sentinel_icons)) (dir_entry 1) = Some 255
   \<and> getUint8 (the (assembleIco unlimited_host sentinel_icons)) (dir_entry 2) = Some 16
   \<and> getUint8 (the (assembleIco unlimited_host sentinel_icons)) (dir_entry 0 + 1) = Some 0
   \<and> getUint8 (the (assembleIco unlimited_host sentinel_icons)) (dir_entry 1 + 1) = Some 255
   \<and> getUint8 (the (assembleIco unlimited_host sentinel_icons)) (dir_entry 2 + 1) = Some 16"
  unfolding sentinel_run option.sel
  using width_height_bytes [OF sentinel_run, of 0] width_height_bytes [OF sentinel_run, of 1]
    width_height_bytes [OF sentinel_run, of 2]
  by (simp add: sentinel_icons_def)

text \<open>
  C5. The directory records stand in input order: the sixteen bytes at \<open>dir_entry i\<close>
  are the record of \<open>images ! i\<close>, with the offset of its own payload; and everything
  after the last record is the payloads of all entries, concatenated in input order with
  nothing between them.
\<close>

theorem records_and_payloads_in_order:
  assumes "assembleIco host images = Some buf"
  shows "take 6 buf = layout_header (length images)
   \<and> (\<forall>i < length images.
        slice buf (dir_entry i) (dir_entry i + 16)
        = layout_record (images ! i) (payload_offset images i))
   \<and> drop (dir_entry (length images)) buf = concat (map data images)"
proof -
  have "take 6 (layout_container images) = layout_header (length images)"
    by (simp add: layout_container_def)
  then show ?thesis
    unfolding assembleIco_Some [OF assms]
    by (simp add: container_record_slice container_data_section)
qed

theorem records_and_payloads_in_order_witness:
  "assembleIco unlimited_host oblong_icons \<noteq> None
   \<and> take 6 (the (assembleIco unlimited_host oblong_icons)) = [0, 0, 1, 0, 2, 0]
   \<and> slice (the (assembleIco unlimited_host oblong_icons)) (dir_entry 0) (dir_entry 0 + 16)
     = [16, 16, 0, 0, 1, 0, 32, 0, 3, 0, 0, 0, 38, 0, 0, 0]
   \<and> slice (the (assembleIco unlimited_host oblong_icons)) (dir_entry 1) (dir_entry 1 + 16)
     = [0, 0, 0, 0, 1, 0, 32, 0, 2, 0, 0, 0, 41, 0, 0, 0]
   \<and> drop (dir_entry 2) (the (assembleIco unlimited_host oblong_icons)) = [1, 2, 3, 9, 8]"
proof -
  note t = records_and_payloads_in_order [OF oblong_run]
  have l: "0 < length oblong_icons" "1 < length oblong_icons"
    by (simp_all add: oblong_icons_def)
  note r0 = t [THEN conjunct2, THEN conjunct1, rule_format, OF l(1)]
  note r1 = t [THEN conjunct2, THEN conjunct1, rule_format, OF l(2)]
  show ?thesis
    unfolding oblong_run option.sel
    using t [THEN conjunct1] r0 r1 t [THEN conjunct2, THEN conjunct2]
    by (simp add: oblong_icons_def layout_eval dir_entry_def)
qed

text \<open>
  C6. In every directory record the colour-count byte and the reserved byte are 0, the
  colour-planes field is 1 and the bits-per-pixel field is 32, both little-endian 16-bit
  values, whatever the entry holds.
\<close>

theorem constant_fields:
  assumes "assembleIco host images = Some buf" and "i < length images"
  shows "getUint8 buf (dir_entry i + 2) = Some 0 \<and> getUint8 buf (dir_entry i + 3) = Some 0
         \<and> getUint16 buf (dir_entry i + 4) True = Some 1
         \<and> getUint16 buf (dir_entry i + 6) True = Some 32"
  unfolding assembleIco_Some [OF assms(1)]
  using container_fields(3,4,5,6) [OF assms(2)] by simp

theorem constant_fields_witness:
  "assembleIco unlimited_host oblong_icons \<noteq> None \<and> 1 < length oblong_icons
   \<and> getUint8 (the (assembleIco unlimited_host oblong_icons)) (dir_entry 1 + 2) = Some 0
   \<and> getUint8 (the (assembleIco unlimited_host oblong_icons)) (dir_entry 1 + 3) = Some 0
   \<and> getUint16 (the (assembleIco unlimited_host oblong_icons)) (dir_entry 1 + 4) True = Some 1
   \<and> getUint16 (the (assembleIco unlimited_host oblong_icons)) (dir_entry 1 + 6) True = Some 32"
  unfolding oblong_run option.sel
  using constant_fields [OF oblong_run, of 1] by (simp add: oblong_icons_def)

text \<open>
  C7. On the empty list \<open>assembleIco\<close> asks for six bytes and, given them, raises
  nothing and returns exactly the six bytes of the header: reserved 0, type 1 and a count
  field of 0, with no directory record and no payload after them.
\<close>

theorem assemble_empty:
  "host 6 \<Longrightarrow>
   assembleIco host [] = Some [0, 0, 1, 0, 0, 0]
   \<and> length [0, 0, 1, 0, 0, 0 :: byte] = 6
   \<and> getUint16 [0, 0, 1, 0, 0, 0] 4 True = Some 0"
  by (simp add: assembleIco_layout layout_eval getUint16_def)

theorem assemble_empty_witness:
  "unlimited_host 6
   \<and> assembleIco unlimited_host [] = Some [0, 0, 1, 0, 0, 0]
   \<and> length [0, 0, 1, 0, 0, 0 :: byte] = 6
   \<and> getUint16 [0, 0, 1, 0, 0, 0] 4 True = Some 0"
proof -
  have h: "unlimited_host 6" by (simp add: unlimited_host_def)
  show ?thesis using assemble_empty [of unlimited_host, OF h] h by simp
qed

text \<open>
  C8, as far as it holds. For every list of entries for which the allocation of the
  buffer of \<open>totalSize = 6 + 16 * N +\<close> (sum of payload lengths) bytes succeeds,
  \<open>assembleIco\<close> raises nothing and returns a buffer of that size: no \<open>setUint8\<close>,
  \<open>setUint16\<close> or \<open>setUint32\<close> of the routine writes outside the buffer, and no width
  or height is rejected (the witness has an entry of 256 by 300 pixels). The claim as
  stated, for every list of entries, fails: the allocation itself can throw.
\<close>

theorem assemble_returns:
  "new_ArrayBuffer host (6 + 16 * length images + payload_size images) \<noteq> None \<Longrightarrow>
   \<exists>buf. assembleIco host images = Some buf
         \<and> length buf = 6 + 16 * length images + payload_size images"
  by (auto simp add: assembleIco_layout length_layout_container)

theorem assemble_returns_witness:
  "new_ArrayBuffer unlimited_host (6 + 16 * length oblong_icons + payload_size oblong_icons)
     \<noteq> None
   \<and> map width oblong_icons = [16, 256] \<and> map height oblong_icons = [16, 300]
   \<and> (\<exists>buf. assembleIco unlimited_host oblong_icons = Some buf \<and> length buf = 43)"
proof -
  have t: "6 + 16 * length oblong_icons + payload_size oblong_icons = 43"
    by (simp add: oblong_icons_def payload_size_def)
  have f: "new_ArrayBuffer unlimited_host
             (6 + 16 * length oblong_icons + payload_size oblong_icons) \<noteq> None"
    by (simp add: t new_ArrayBuffer_def max_byte_length_def unlimited_host_def)
  show ?thesis
    using assemble_returns [OF f] f by (simp add: t) (simp add: oblong_icons_def)
qed

text \<open>
  \<open>2^23\<close> entries with payloads of \<open>2^30\<close> bytes each: the total is above
  \<open>2^53 - 1\<close>, and \<^verbatim>\<open>new ArrayBuffer\<close> throws even on a host that grants whatever it
  is asked for.
\<close>

theorem allocation_counterexample:
  "assembleIco unlimited_host
     (replicate (2 ^ 23) \<lparr>width = 16, height = 16, data = replicate (2 ^ 30) 0\<rparr>)
   = None"
  by (simp add: assembleIco_layout payload_size_replicate max_byte_length_def
      new_ArrayBuffer_def)

text \<open>
  C9. \<open>assembleIco\<close> is deterministic and touches nothing but its argument and its own
  buffer. Take two runs, in any two heaps and on any two hosts, on lists of entries with
  the same widths, the same heights and the same payload bytes, and let both return. Then
  each run returns a block that did not exist before, the two blocks hold the same bytes,
  and each heap is otherwise as it was: every array that existed before the run, the
  payloads of the entries among them, still has its content. What else the heaps hold,
  and what else the hosts would grant, has no influence on the bytes.
\<close>

theorem assemble_deterministic:
  assumes "map (loaded h) images = map (loaded h') images'"
    and "assembleIco_heap host h images \<noteq> None"
    and "assembleIco_heap host' h' images' \<noteq> None"
  shows "\<exists>buf. assembleIco_heap host h images = Some (length h, h @ [buf])
             \<and> assembleIco_heap host' h' images' = Some (length h', h' @ [buf])"
proof -
  let ?entries = "map (loaded h) images"
  have s: "assembleIco_heap host h images
           = map_option (\<lambda>buf. (length h, h @ [buf])) (assembleIco host ?entries)"
    using assms(2) by (intro assembleIco_heap_sim assembleIco_heap_refs)
  have s': "assembleIco_heap host' h' images'
            = map_option (\<lambda>buf. (length h', h' @ [buf])) (assembleIco host' ?entries)"
    unfolding assms(1) using assms(3) by (intro assembleIco_heap_sim assembleIco_heap_refs)
  from assms(2) s obtain buf where b: "assembleIco host ?entries = Some buf" by auto
  from assms(3) s' obtain buf' where b': "assembleIco host' ?entries = Some buf'" by auto
  have "buf = buf'"
    using assembleIco_Some [OF b] assembleIco_Some [OF b'] by simp
  then show ?thesis using s s' b b' by simp
qed

theorem assemble_deterministic_witness:
  "map (loaded icon_heap) icon_objects = map (loaded other_heap) other_objects
   \<and> assembleIco_heap unlimited_host icon_heap icon_objects
     = Some (2, icon_heap @ [[0, 0, 1, 0, 2, 0,
           16, 16, 0, 0, 1, 0, 32, 0, 3, 0, 0, 0, 38, 0, 0, 0,
           0, 0, 0, 0, 1, 0, 32, 0, 2, 0, 0, 0, 41, 0, 0, 0,
           1, 2, 3, 9, 8]])
   \<and> assembleIco_heap small_host other_heap other_objects
     = Some (3, other_heap @ [[0, 0, 1, 0, 2, 0,
           16, 16, 0, 0, 1, 0, 32, 0, 3, 0, 0, 0, 38, 0, 0, 0,
           0, 0, 0, 0, 1, 0, 32, 0, 2, 0, 0, 0, 41, 0, 0, 0,
           1, 2, 3, 9, 8]])"
proof -
  have l: "map (loaded icon_heap) icon_objects = oblong_icons"
    "map (loaded other_heap) other_objects = oblong_icons"
    by (simp_all add: loaded_def icon_heap_def icon_objects_def other_heap_def
        other_objects_def oblong_icons_def)
  have same: "map (loaded icon_heap) icon_objects = map (loaded other_heap) other_objects"
    by (simp add: l)
  have r: "assembleIco_heap unlimited_host icon_heap icon_objects
           = map_option (\<lambda>buf. (length icon_heap, icon_heap @ [buf]))
               (assembleIco unlimited_host oblong_icons)"
    using assembleIco_heap_sim [of icon_objects icon_heap unlimited_host]
    by (simp add: l) (simp add: icon_objects_def icon_heap_def)
  have r': "assembleIco_heap small_host other_heap other_objects
            = map_option (\<lambda>buf. (length other_heap, other_heap @ [buf]))
                (assembleIco small_host oblong_icons)"
    using assembleIco_heap_sim [of other_objects other_heap small_host]
    by (simp add: l) (simp add: other_objects_def other_heap_def)
  have n: "assembleIco_heap unlimited_host icon_heap icon_objects \<noteq> None"
    "assembleIco_heap small_host other_heap other_objects \<noteq> None"
    by (simp_all add: r r' oblong_run small_run)
  have len: "length icon_heap = 2" "length other_heap = 3"
    by (simp_all add: icon_heap_def other_heap_def)
  show ?thesis
    using assemble_deterministic [OF same n] same
    by (simp add: r r' oblong_run small_run len)
qed

text \<open>
  C10, as far as it holds. For every list of more than 65535 entries for which the
  allocation of the buffer succeeds, \<open>assembleIco\<close> returns a buffer whose count field
  holds the number of entries modulo \<open>2^16\<close>, which differs from the number of entries.
  The length of the buffer, the directory (one 16-byte record for each entry, the
  payloads starting right after the last) and the data offsets (stored modulo \<open>2^32\<close>)
  follow the true number of entries. The claim as stated, for every list of more than
  65535 entries, fails where the allocation does.
\<close>

theorem count_field_truncated:
  assumes "65535 < length images"
    and "new_ArrayBuffer host (6 + 16 * length images + payload_size images) \<noteq> None"
  shows "\<exists>buf. assembleIco host images = Some buf
     \<and> getUint16 buf 4 True = Some (length images mod 2 ^ 16)
     \<and> getUint16 buf 4 True \<noteq> Some (length images)
     \<and> length buf = 6 + 16 * length images + payload_size images
     \<and> (\<forall>i < length images.
          slice buf (dir_entry i) (dir_entry i + 16)
            = layout_record (images ! i) (payload_offset images i)
          \<and> getUint32 buf (dir_entry i + 12) True = Some (payload_offset images i mod 2 ^ 32))
     \<and> drop (dir_entry (length images)) buf = concat (map data images)"
proof -
  have r: "assembleIco host images = Some (layout_container images)"
    using assms(2) by (auto simp add: assembleIco_layout)
  have c: "getUint16 (layout_container images) 4 True = Some (length images mod 2 ^ 16)"
    by (simp add: container_header)
  have "length images mod 65536 < 65536" by simp
  with assms(1) have ne: "length images mod 2 ^ 16 \<noteq> length images" by simp
  have o: "getUint32 (layout_container images) (dir_entry i + 12) True
           = Some (payload_offset images i mod 2 ^ 32)" if "i < length images" for i
    using container_fields(8) [OF that] by simp
  show ?thesis
    using r c ne o
    by (simp add: length_layout_container container_record_slice container_data_section)
qed

theorem count_field_truncated_witness:
  "65535 < length (replicate 65536 \<lparr>width = 32, height = 32, data = [1, 2]\<rparr>)
   \<and> new_ArrayBuffer unlimited_host
       (6 + 16 * length (replicate 65536 \<lparr>width = 32, height = 32, data = [1, 2]\<rparr>)
        + payload_size (replicate 65536 \<lparr>width = 32, height = 32, data = [1, 2]\<rparr>))
     \<noteq> None
   \<and> (\<exists>buf. assembleIco unlimited_host
                (replicate 65536 \<lparr>width = 32, height = 32, data = [1, 2]\<rparr>)
              = Some buf
            \<and> getUint16 buf 4 True = Some 0
            \<and> length buf = 6 + 16 * 65536 + 2 * 65536
            \<and> getUint32 buf (dir_entry 65535 + 12) True
              = Some (6 + 16 * 65536 + 2 * 65535))"
proof -
  let ?imgs = "replicate 65536 \<lparr>width = 32, height = 32, data = [1, 2 :: byte]\<rparr>"
  have l: "65535 < length ?imgs" by simp
  have f: "new_ArrayBuffer unlimited_host (6 + 16 * length ?imgs + payload_size ?imgs) \<noteq> None"
    by (simp add: payload_size_replicate max_byte_length_def new_ArrayBuffer_def
        unlimited_host_def)
  have o: "payload_offset ?imgs 65535 = 6 + 16 * 65536 + 2 * 65535"
    by (simp add: payload_offset_def payload_size_replicate)
  from count_field_truncated [OF l f] obtain buf where
    b: "assembleIco unlimited_host ?imgs = Some buf"
      "getUint16 buf 4 True = Some (length ?imgs mod 2 ^ 16)"
      "length buf = 6 + 16 * length ?imgs + payload_size ?imgs"
      "\<forall>i < length ?imgs. getUint32 buf (dir_entry i + 12) True
          = Some (payload_offset ?imgs i mod 2 ^ 32)"
    by blast
  have "getUint32 buf (dir_entry 65535 + 12) True = Some (payload_offset ?imgs 65535 mod 2 ^ 32)"
    using b(4) by simp
  then have "getUint32 buf (dir_entry 65535 + 12) True = Some (6 + 16 * 65536 + 2 * 65535)"
    by (simp add: o)
  moreover have "getUint16 buf 4 True = Some 0" using b(2) by simp
  moreover have "length buf = 6 + 16 * 65536 + 2 * 65536"
    using b(3) by (simp add: payload_size_replicate)
  ultimately show ?thesis using l f b(1) by blast
qed

text \<open>
  \<open>2^24\<close> entries with payloads of \<open>2^29\<close> bytes each: more than 65535 entries, a
  total above \<open>2^53 - 1\<close>, and the routine returns no buffer even on a host that grants
  whatever it is asked for.
\<close>

theorem count_field_counterexample:
  "65535 < length (replicate (2 ^ 24) \<lparr>width = 16, height = 16, data = replicate (2 ^ 29) 0\<rparr>)
   \<and> assembleIco unlimited_host
       (replicate (2 ^ 24) \<lparr>width = 16, height = 16, data = replicate (2 ^ 29) 0\<rparr>)
     = None"
  by (simp add: assembleIco_layout payload_size_replicate max_byte_length_def
      new_ArrayBuffer_def)

end
